theory Spec2Isabelle
  imports Complex_Main "HOL-Library.Monad_Syntax" "HOL-Library.AList"
begin

section \<open>The action scheduler of senlin/engine/scheduler.py\<close>

text \<open>
  The module runs actions in green threads.  Everything it does besides returning a
  value is a call into a collaborator: the database API (\<open>db_api\<close>), the thread group,
  \<open>eventlet.sleep\<close>, the clock and the action's own \<open>execute\<close>.  The model records these
  calls, in order, in a trace of events; the values the collaborators return are
  parameters of the model.  Log messages are left out, and so is the request context,
  which is handed on unchanged to every \<open>db_api\<close> call.
\<close>

subsection \<open>Data\<close>

type_synonym action_id = string
type_synonym engine_id = string

text \<open>\<open>wallclock = time.time\<close>: seconds as a number.\<close>

type_synonym timestamp = real

text \<open>
  Modelled from the spec: the type of the values \<open>action.execute()\<close> returns and the
  constants \<open>action.RES_OK\<close>, ... of \<open>senlin.engine.actions.base\<close>, which the module
  compares against: a step function returning one of OK, ERROR, RETRY, CANCEL, TIMEOUT.
\<close>

datatype result = RES_OK | RES_ERROR | RES_RETRY | RES_CANCEL | RES_TIMEOUT

text \<open>
  Modelled from the spec: the fields of an \<open>Action\<close> object the module reads.  The
  \<open>start_time\<close> is a timestamp, the \<open>timeout\<close> is optional (\<open>None\<close> means no timeout).
\<close>

record action =
  id' :: action_id
  start_time :: timestamp
  timeout :: "timestamp option"

text \<open>The Python exceptions the modelled code can raise.\<close>

datatype error = TypeError | KeyError | AttributeError

text \<open>\<open>ACTION_CONTROL_REQUEST\<close>: the four control strings.\<close>

definition ACTION_CANCEL :: string where "ACTION_CANCEL = ''cancel''"
definition ACTION_SUSPEND :: string where "ACTION_SUSPEND = ''suspend''"
definition ACTION_RESUME :: string where "ACTION_RESUME = ''resume''"
definition ACTION_TIMEOUT :: string where "ACTION_TIMEOUT = ''timeout''"

text \<open>
  The calls the scheduler makes to its collaborators.  \<open>Execute r\<close> is one call of
  \<open>action.execute()\<close> that returned \<open>r\<close>; \<open>Sleep t\<close> is \<open>eventlet.sleep(t)\<close>; the others
  are the functions of \<open>db_api\<close>, \<open>Action.load\<close> and the thread group manager's
  \<open>start_action_thread\<close>, with their arguments.
\<close>

datatype event =
    Execute result
  | Sleep timestamp
  | Action_load action_id
  | DB_action_acquire action_id engine_id timestamp
  | DB_action_release action_id engine_id
  | DB_action_mark_failed action_id timestamp
  | DB_action_mark_succeeded action_id timestamp
  | DB_action_mark_cancelled action_id timestamp
  | DB_action_control action_id string
  | DB_action_control_check action_id
  | Start_action_thread action_id

subsection \<open>ActionProc\<close>

text \<open>
  The world a running action sees is a state of type \<open>'w\<close>.  \<open>action.execute()\<close> is opaque:
  a function from the world to an outcome and the next world.  \<open>wallclock()\<close> reads the
  world.

  The loop \<open>while result == action.RES_RETRY: result = action.execute()\<close> has no bound,
  so it is a partial function: \<open>None\<close> is a loop that never ends.
\<close>

partial_function (option) retry_while ::
  "('w \<Rightarrow> result \<times> 'w) \<Rightarrow> result \<Rightarrow> 'w \<Rightarrow> event list \<Rightarrow> (result \<times> 'w \<times> event list) option"
where
  "retry_while execute result w tr =
     (if result = RES_RETRY
      then (case execute w of (result', w') \<Rightarrow> retry_while execute result' w' (tr @ [Execute result']))
      else Some (result, w, tr))"

definition ActionProc ::
  "('w \<Rightarrow> result \<times> 'w) \<Rightarrow> ('w \<Rightarrow> timestamp) \<Rightarrow> action \<Rightarrow> timestamp option \<Rightarrow> 'w
     \<Rightarrow> (event list \<times> 'w) option"
where
  "ActionProc execute wallclock action wait_time w =
     (case execute w of (result0, w0) \<Rightarrow>
        (case retry_while execute result0 w0 [Execute result0] of
           None \<Rightarrow> None
         | Some (result, w1, tr) \<Rightarrow>
             (let timestamp = wallclock w1 in
              if result = RES_ERROR then Some (tr @ [DB_action_mark_failed (id' action) timestamp], w1)
              else if result = RES_OK then Some (tr @ [DB_action_mark_succeeded (id' action) timestamp], w1)
              else if result = RES_CANCEL then Some (tr @ [DB_action_mark_cancelled (id' action) timestamp], w1)
              else Some (tr, w1))))"

text \<open>The world after \<open>n\<close> calls of \<open>execute\<close>; the next call returns \<open>fst (execute (after_steps execute w n))\<close>.\<close>

fun after_steps :: "('w \<Rightarrow> result \<times> 'w) \<Rightarrow> 'w \<Rightarrow> nat \<Rightarrow> 'w" where
  "after_steps execute w 0 = w"
| "after_steps execute w (Suc n) = after_steps execute (snd (execute w)) n"


subsection \<open>Control flags and timeout\<close>

text \<open>
  \<open>action_timeout\<close> reads the clock and compares the elapsed time with
  \<open>action.timeout\<close>.  There is no guard for a timeout of \<open>None\<close>: in Python 3 the
  comparison of a number with \<open>None\<close> raises \<open>TypeError\<close>.
\<close>

definition action_timeout :: "('w \<Rightarrow> timestamp) \<Rightarrow> action \<Rightarrow> 'w \<Rightarrow> error + bool" where
  "action_timeout wallclock action w =
     (let time_lapse = wallclock w - start_time action in
      case timeout action of
        None \<Rightarrow> Inl TypeError
      | Some t \<Rightarrow> if time_lapse > t then Inr True else Inr False)"

text \<open>
  \<open>action_control_flag\<close>: the timeout is checked first, and only for an action that has
  one (\<open>and\<close> does not evaluate its right operand when the left one is false); the stored
  flag is read from the database otherwise.  \<open>db_api.action_control_check\<close> is a parameter:
  what the store holds for an action id in the current world, \<open>None\<close> when no flag is set.
\<close>

definition action_control_flag ::
  "('w \<Rightarrow> timestamp) \<Rightarrow> ('w \<Rightarrow> action_id \<Rightarrow> string option) \<Rightarrow> action \<Rightarrow> 'w
     \<Rightarrow> error + (string option \<times> event list)"
where
  "action_control_flag wallclock action_control_check action w =
     (case (case timeout action of
              None \<Rightarrow> Inr False
            | Some t \<Rightarrow> action_timeout wallclock action w) of
        Inl e \<Rightarrow> Inl e
      | Inr timed_out \<Rightarrow>
          if timed_out then Inr (Some ACTION_TIMEOUT, [])
          else Inr (action_control_check w (id' action), [DB_action_control_check (id' action)]))"

definition action_cancelled ::
  "('w \<Rightarrow> timestamp) \<Rightarrow> ('w \<Rightarrow> action_id \<Rightarrow> string option) \<Rightarrow> action \<Rightarrow> 'w
     \<Rightarrow> error + (bool \<times> event list)"
where
  "action_cancelled wallclock action_control_check action w =
     (case action_control_flag wallclock action_control_check action w of
        Inl e \<Rightarrow> Inl e
      | Inr (flag, tr) \<Rightarrow> if flag = Some ACTION_CANCEL then Inr (True, tr) else Inr (False, tr))"

definition action_suspended ::
  "('w \<Rightarrow> timestamp) \<Rightarrow> ('w \<Rightarrow> action_id \<Rightarrow> string option) \<Rightarrow> action \<Rightarrow> 'w
     \<Rightarrow> error + (bool \<times> event list)"
where
  "action_suspended wallclock action_control_check action w =
     (case action_control_flag wallclock action_control_check action w of
        Inl e \<Rightarrow> Inl e
      | Inr (flag, tr) \<Rightarrow> if flag = Some ACTION_SUSPEND then Inr (True, tr) else Inr (False, tr))"

definition action_resumed ::
  "('w \<Rightarrow> timestamp) \<Rightarrow> ('w \<Rightarrow> action_id \<Rightarrow> string option) \<Rightarrow> action \<Rightarrow> 'w
     \<Rightarrow> error + (bool \<times> event list)"
where
  "action_resumed wallclock action_control_check action w =
     (case action_control_flag wallclock action_control_check action w of
        Inl e \<Rightarrow> Inl e
      | Inr (flag, tr) \<Rightarrow> if flag = Some ACTION_RESUME then Inr (True, tr) else Inr (False, tr))"

text \<open>The three entry points that write a flag: one call of \<open>db_api.action_control\<close> each.\<close>

definition suspend_action :: "action_id \<Rightarrow> event list" where
  "suspend_action action_id = [DB_action_control action_id ACTION_SUSPEND]"

definition resume_action :: "action_id \<Rightarrow> event list" where
  "resume_action action_id = [DB_action_control action_id ACTION_RESUME]"

definition cancel_action :: "action_id \<Rightarrow> event list" where
  "cancel_action action_id = [DB_action_control action_id ACTION_CANCEL]"

subsection \<open>Sleeping and waiting\<close>

text \<open>
  \<open>eventlet.sleep(t)\<close> suspends the green thread; other threads run and may change the
  store and the clock.  It is a parameter: the world the task finds when it wakes up.
  \<open>reschedule\<close> sleeps unless \<open>sleep_time\<close> is \<open>None\<close>.
\<close>

definition reschedule ::
  "(timestamp \<Rightarrow> 'w \<Rightarrow> 'w) \<Rightarrow> action \<Rightarrow> timestamp option \<Rightarrow> 'w \<Rightarrow> event list \<times> 'w"
where
  "reschedule eventlet_sleep action sleep_time w =
     (case sleep_time of
        None \<Rightarrow> ([], w)
      | Some t \<Rightarrow> ([Sleep t], eventlet_sleep t w))"

text \<open>
  \<open>action_wait\<close>: \<open>while not action_resumed(action): reschedule(action, sleep_time=1)\<close>.  The
  loop has no bound; \<open>None\<close> is a wait that never ends.
\<close>

partial_function (option) action_wait ::
  "('w \<Rightarrow> timestamp) \<Rightarrow> ('w \<Rightarrow> action_id \<Rightarrow> string option) \<Rightarrow> (timestamp \<Rightarrow> 'w \<Rightarrow> 'w)
     \<Rightarrow> action \<Rightarrow> 'w \<Rightarrow> event list \<Rightarrow> (error + (event list \<times> 'w)) option"
where
  "action_wait wallclock action_control_check eventlet_sleep action w tr =
     (case action_resumed wallclock action_control_check action w of
        Inl e \<Rightarrow> Some (Inl e)
      | Inr (resumed, evs) \<Rightarrow>
          if \<not> resumed
          then (case reschedule eventlet_sleep action (Some 1) w of
                  (evs', w') \<Rightarrow>
                    action_wait wallclock action_control_check eventlet_sleep action w'
                      (tr @ evs @ evs'))
          else Some (Inr (tr @ evs, w)))"

text \<open>The world at the \<open>n\<close>-th poll of \<open>action_wait\<close>: after \<open>n\<close> sleeps of one second.\<close>

fun after_sleeps :: "(timestamp \<Rightarrow> 'w \<Rightarrow> 'w) \<Rightarrow> 'w \<Rightarrow> nat \<Rightarrow> 'w" where
  "after_sleeps eventlet_sleep w 0 = w"
| "after_sleeps eventlet_sleep w (Suc n) = after_sleeps eventlet_sleep (eventlet_sleep 1 w) n"

subsection \<open>ThreadGroupManager\<close>

text \<open>
  A thread handle (\<open>th\<close>) is a number.  Two functions of this module are linked to
  threads as completion callbacks, each a closure: \<open>release\<close>, which
  \<open>start_action_thread\<close> links with the action, and \<open>mark_done\<close>, which \<open>stop\<close> links
  with the thread.  \<open>Release aid\<close> is the first for the action with id \<open>aid\<close>,
  \<open>Mark_done th\<close> the second for the thread \<open>th\<close>.
\<close>

type_synonym handle = nat

datatype callback = Release action_id | Mark_done handle

text \<open>
  Modelled from the spec: the state of the thread group \<open>self.group\<close>
  (\<open>senlin.openstack.common.threadgroup\<close>), in the fields \<open>group_...\<close>: the number of
  threads it has created, each new thread getting the next number as its handle; the
  periodic timers registered, as interval and name of the function; for each thread
  the queue of callbacks linked to it that have not been called yet, in the order
  they were linked; and the threads whose task has exited.  The field \<open>threads\<close> is the
  manager's own \<open>self.threads\<close>, the dictionary from action ids to handles.  The field
  \<open>links_done\<close> is the dictionary of that name that \<open>stop\<close> creates and its callback
  \<open>mark_done\<close> writes to, in the order of its keys; it is empty until \<open>stop\<close> is called.
\<close>

record ThreadGroupManager =
  threads :: "action_id \<rightharpoonup> handle"
  links_done :: "(handle \<times> bool) list"
  group_created :: nat
  group_timers :: "(timestamp \<times> string) list"
  group_links :: "handle \<Rightarrow> callback list"
  group_exited :: "handle list"

text \<open>
  \<open>add_timer\<close> registers the timer with \<open>cfg.CONF.periodic_interval\<close>, the first parameter
  here; its own \<open>interval\<close> argument is not used.
\<close>

definition add_timer ::
  "timestamp \<Rightarrow> ThreadGroupManager \<Rightarrow> timestamp \<Rightarrow> string \<Rightarrow> ThreadGroupManager"
where
  "add_timer periodic_interval self interval func =
     self\<lparr>group_timers := group_timers self @ [(periodic_interval, func)]\<rparr>"

text \<open>\<open>__init__\<close>: no threads, a new group, and the dummy service task as a timer.\<close>

definition init :: "timestamp \<Rightarrow> ThreadGroupManager" where
  "init periodic_interval =
     add_timer periodic_interval
       \<lparr>threads = Map.empty, links_done = [], group_created = 0, group_timers = [],
        group_links = (\<lambda>th. []), group_exited = []\<rparr>
       periodic_interval ''_service_task''"

text \<open>
  Modelled from the spec: \<open>self.group.add_thread(func, ...)\<close>, which is all \<open>start\<close> calls,
  spawns a new task and returns its handle.
\<close>

definition start :: "ThreadGroupManager \<Rightarrow> handle \<times> ThreadGroupManager" where
  "start self = (group_created self, self\<lparr>group_created := Suc (group_created self)\<rparr>)"

text \<open>
  Modelled from the spec: \<open>th.link(f)\<close> registers a completion callback for the task,
  behind the callbacks already queued for it.
\<close>

definition link :: "handle \<Rightarrow> callback \<Rightarrow> ThreadGroupManager \<Rightarrow> ThreadGroupManager" where
  "link th cb self = self\<lparr>group_links := (group_links self)(th := group_links self th @ [cb])\<rparr>"

definition start_action_thread ::
  "ThreadGroupManager \<Rightarrow> action \<Rightarrow> handle \<times> ThreadGroupManager"
where
  "start_action_thread self action =
     (case start self of (th, self1) \<Rightarrow>
        (let self2 = self1\<lparr>threads := (threads self1)(id' action \<mapsto> th)\<rparr>;
             self3 = link th (Release (id' action)) self2
         in (th, self3)))"

text \<open>The callback \<open>release\<close>: \<open>self.threads.pop(action.id)\<close>, a \<open>KeyError\<close> when the id is not a key.\<close>

definition release :: "action_id \<Rightarrow> ThreadGroupManager \<Rightarrow> error + ThreadGroupManager" where
  "release aid self =
     (case threads self aid of
        None \<Rightarrow> Inl KeyError
      | Some th \<Rightarrow> Inr (self\<lparr>threads := (threads self)(aid := None)\<rparr>))"

text \<open>The callback \<open>mark_done\<close> of \<open>stop\<close>: \<open>links_done[th] = True\<close>.\<close>

definition mark_done :: "handle \<Rightarrow> ThreadGroupManager \<Rightarrow> ThreadGroupManager" where
  "mark_done th self = self\<lparr>links_done := AList.update th True (links_done self)\<rparr>"

text \<open>
  Modelled from the spec: how the group runs its tasks and their callbacks.  A task of
  the group that is running exits (\<open>task_exit\<close>).  Callback scheduling is cooperative:
  the callbacks of a task are not called when it exits but queued, and called later,
  one at a time (\<open>call_link\<close>), in the order they were linked.  An exception in a
  callback is raised in the green thread that calls it and leaves the manager as it
  was.
\<close>

definition call :: "callback \<Rightarrow> ThreadGroupManager \<Rightarrow> ThreadGroupManager" where
  "call cb self =
     (case cb of
        Release aid \<Rightarrow> (case release aid self of Inl e \<Rightarrow> self | Inr self' \<Rightarrow> self')
      | Mark_done th \<Rightarrow> mark_done th self)"

definition task_exit :: "handle \<Rightarrow> ThreadGroupManager \<Rightarrow> ThreadGroupManager" where
  "task_exit th self =
     (if th < group_created self \<and> th \<notin> set (group_exited self)
      then self\<lparr>group_exited := th # group_exited self\<rparr>
      else self)"

definition call_link :: "handle \<Rightarrow> ThreadGroupManager \<Rightarrow> ThreadGroupManager" where
  "call_link th self =
     (if th < group_created self \<and> th \<in> set (group_exited self)
      then (case group_links self th of
              [] \<Rightarrow> self
            | cb # cbs \<Rightarrow> call cb (self\<lparr>group_links := (group_links self)(th := cbs)\<rparr>))
      else self)"

text \<open>
  What happens to a manager: an action thread is started, a running task exits, or
  the next callback of a task that has exited is called.  All run on the one
  cooperative context, one at a time.
\<close>

datatype tgm_event = Spawn action | Task_exit handle | Call_link handle

fun tgm_step :: "tgm_event \<Rightarrow> ThreadGroupManager \<Rightarrow> ThreadGroupManager" where
  "tgm_step (Spawn action) self = snd (start_action_thread self action)"
| "tgm_step (Task_exit th) self = task_exit th self"
| "tgm_step (Call_link th) self = call_link th self"

fun tgm_run :: "tgm_event list \<Rightarrow> ThreadGroupManager \<Rightarrow> ThreadGroupManager" where
  "tgm_run [] self = self"
| "tgm_run (ev # evs) self = tgm_run evs (tgm_step ev self)"

text \<open>
  The running-task handles of an action id: the threads started for it whose
  \<open>release\<close> callback has not been called yet.
\<close>

definition running_tasks :: "ThreadGroupManager \<Rightarrow> action_id \<Rightarrow> handle list" where
  "running_tasks self aid =
     filter (\<lambda>th. Release aid \<in> set (group_links self th)) [0..<group_created self]"

text \<open>
  A sequence of events in which a thread is started for an action only when the
  action has no running-task handle.  \<open>start_action_thread\<close> does not check this; its
  caller \<open>start_action\<close> starts a thread only after it has acquired the action's lock.
\<close>

fun spawns_guarded :: "tgm_event list \<Rightarrow> ThreadGroupManager \<Rightarrow> bool" where
  "spawns_guarded [] self = True"
| "spawns_guarded (Spawn action # evs) self =
     (running_tasks self (id' action) = [] \<and> spawns_guarded evs (tgm_step (Spawn action) self))"
| "spawns_guarded (ev # evs) self = spawns_guarded evs (tgm_step ev self)"

text \<open>
  The invariants the proofs carry through every run of the manager.  \<open>tgm_inv\<close>: a
  handle in the dictionary belongs to a thread that was created, and the \<open>release\<close>
  callback for its action id is still queued for it.  \<open>release_only\<close>: no callback
  other than \<open>release\<close> is queued.  \<open>guarded_inv\<close>, for guarded runs: the dictionary
  holds exactly the threads with a \<open>release\<close> callback queued, each thread has at most
  one callback, and threads not yet created have none.
\<close>

definition tgm_inv :: "ThreadGroupManager \<Rightarrow> bool" where
  "tgm_inv self \<longleftrightarrow>
     (\<forall>aid th. threads self aid = Some th \<longrightarrow>
        th < group_created self \<and> Release aid \<in> set (group_links self th))"


definition guarded_inv :: "ThreadGroupManager \<Rightarrow> bool" where
  "guarded_inv self \<longleftrightarrow>
     (\<forall>aid th. Release aid \<in> set (group_links self th) \<longleftrightarrow> threads self aid = Some th) \<and>
     (\<forall>th. length (group_links self th) \<le> 1) \<and>
     (\<forall>th. group_created self \<le> th \<longrightarrow> group_links self th = [])"

subsection \<open>ThreadGroupManager.stop\<close>

text \<open>
  Modelled from the spec: \<open>self.group.stop(graceful)\<close> signals all tasks and timers to
  stop, the tasks at a natural stopping point if \<open>graceful\<close> and at once otherwise: the
  timers are gone, and the tasks exit by the time \<open>self.group.wait()\<close> returns.
  \<open>self.group.wait()\<close> blocks until every task in the group has exited; their callbacks
  need not have been called.  \<open>self.group.threads\<close> is the list of the group's tasks.
\<close>

definition group_stop :: "bool \<Rightarrow> ThreadGroupManager \<Rightarrow> ThreadGroupManager" where
  "group_stop graceful self = self\<lparr>group_timers := []\<rparr>"

definition group_wait :: "ThreadGroupManager \<Rightarrow> ThreadGroupManager" where
  "group_wait self =
     self\<lparr>group_exited :=
            filter (\<lambda>th. th \<notin> set (group_exited self)) [0..<group_created self] @ group_exited self\<rparr>"

definition group_threads :: "ThreadGroupManager \<Rightarrow> handle list" where
  "group_threads self = [0..<group_created self]"

text \<open>
  Modelled from the spec: while the caller is in \<open>eventlet.sleep()\<close> the scheduler calls
  queued callbacks.  Which ones is the scheduler's choice, a parameter \<open>sched\<close>: the
  \<open>n\<close>-th sleep calls the next callback of each thread in the list \<open>sched n\<close>, in turn.
\<close>

definition run_links :: "handle list \<Rightarrow> ThreadGroupManager \<Rightarrow> ThreadGroupManager" where
  "run_links ths self = fold call_link ths self"

text \<open>
  The loop \<open>while not all(links_done.values()): eventlet.sleep()\<close> has no bound; \<open>None\<close> is
  a loop that never ends.
\<close>

partial_function (option) stop_wait ::
  "(nat \<Rightarrow> handle list) \<Rightarrow> nat \<Rightarrow> ThreadGroupManager \<Rightarrow> ThreadGroupManager option"
where
  "stop_wait sched n self =
     (if \<not> list_all snd (links_done self)
      then stop_wait sched (Suc n) (run_links (sched n) self)
      else Some self)"

definition stop :: "(nat \<Rightarrow> handle list) \<Rightarrow> bool \<Rightarrow> ThreadGroupManager \<Rightarrow> ThreadGroupManager option" where
  "stop sched graceful self =
     (let self1 = group_stop graceful self;
          self2 = group_wait self1;
          ths = group_threads self2;
          self3 = self2\<lparr>links_done := map (\<lambda>th. (th, False)) ths\<rparr>;
          self4 = fold (\<lambda>th. link th (Mark_done th)) ths self3
      in stop_wait sched 0 self4)"


subsection \<open>start_action\<close>

text \<open>
  What \<open>start_action\<close> returns: \<open>True\<close>, \<open>False\<close>, or \<open>None\<close> where the function ends
  without a \<open>return\<close>.
\<close>

datatype pyval = Py_True | Py_False | Py_None

text \<open>
  \<open>Action.load\<close> (here \<open>load\<close>), \<open>db_api.action_acquire\<close> and the manager \<open>tgm\<close> are parameters.  The
  manager is any object with a \<open>start_action_thread\<close> method: a function from its state
  and the action to what the method returns and the next state, where \<open>None\<close> is a handle
  that Python takes as false.  \<open>now\<close> is what \<open>wallclock()\<close> returns.
\<close>

definition start_action ::
  "(action_id \<Rightarrow> action) \<Rightarrow> (action_id \<Rightarrow> engine_id \<Rightarrow> timestamp \<Rightarrow> bool)
     \<Rightarrow> ('t \<Rightarrow> action \<Rightarrow> 'h option \<times> 't) \<Rightarrow> timestamp
     \<Rightarrow> action_id \<Rightarrow> engine_id \<Rightarrow> 't \<Rightarrow> pyval \<times> event list \<times> 't"
where
  "start_action load action_acquire tgm_start_action_thread now action_id engine_id tgm =
     (let action = (load action_id)\<lparr>start_time := now\<rparr>;
          result = action_acquire action_id engine_id (start_time action);
          tr = [Action_load action_id, DB_action_acquire action_id engine_id (start_time action)]
      in if result
         then (case tgm_start_action_thread tgm action of (th, tgm') \<Rightarrow>
                 (case th of
                    None \<Rightarrow>
                      (Py_None,
                       tr @ [Start_action_thread (id' action), DB_action_release action_id engine_id],
                       tgm')
                  | Some h \<Rightarrow> (Py_True, tr @ [Start_action_thread (id' action)], tgm')))
         else (Py_False, tr, tgm))"

text \<open>The manager of this module as the \<open>tgm\<close> of \<open>start_action\<close>: its handles are never false.\<close>

definition tgm_method :: "ThreadGroupManager \<Rightarrow> action \<Rightarrow> handle option \<times> ThreadGroupManager" where
  "tgm_method self action =
     (case start_action_thread self action of (th, self') \<Rightarrow> (Some th, self'))"

subsection \<open>Concrete inputs\<close>

text \<open>Steps that return RETRY twice, and once, before OK; the world counts the calls.\<close>

definition retry_twice :: "nat \<Rightarrow> result \<times> nat" where
  "retry_twice n = (if n < 2 then RES_RETRY else RES_OK, Suc n)"

definition retry_once :: "nat \<Rightarrow> result \<times> nat" where
  "retry_once n = (if n < 1 then RES_RETRY else RES_OK, Suc n)"

definition a1 :: action where
  "a1 = \<lparr>id' = ''a1'', start_time = 0, timeout = None\<rparr>"

definition a2 :: action where
  "a2 = \<lparr>id' = ''a2'', start_time = 0, timeout = None\<rparr>"

definition a5 :: action where
  "a5 = \<lparr>id' = ''a5'', start_time = 0, timeout = Some 5\<rparr>"

text \<open>
  A store polled three times: the flag of every action is suspend at the first poll,
  cancel at the second, resume from the third on.  The world is the number of sleeps.
\<close>

definition flags_over_time :: "nat \<Rightarrow> action_id \<Rightarrow> string option" where
  "flags_over_time n aid =
     (if n = 0 then Some ACTION_SUSPEND else if n = 1 then Some ACTION_CANCEL else Some ACTION_RESUME)"

definition one_more_sleep :: "timestamp \<Rightarrow> nat \<Rightarrow> nat" where
  "one_more_sleep t n = Suc n"

text \<open>
  A manager that never starts a thread, a store where every action is found, and a
  database where every lock is free, and one where every lock is taken.
\<close>

definition never_spawns :: "unit \<Rightarrow> action \<Rightarrow> handle option \<times> unit" where
  "never_spawns tgm action = (None, tgm)"

definition load_any :: "action_id \<Rightarrow> action" where
  "load_any aid = \<lparr>id' = aid, start_time = 0, timeout = None\<rparr>"

definition lock_free :: "action_id \<Rightarrow> engine_id \<Rightarrow> timestamp \<Rightarrow> bool" where
  "lock_free aid eid ts = True"

definition lock_taken :: "action_id \<Rightarrow> engine_id \<Rightarrow> timestamp \<Rightarrow> bool" where
  "lock_taken aid eid ts = False"


definition idle :: "nat \<Rightarrow> handle list" where
  "idle n = []"

text \<open>A store in which every action has a cancel request pending.\<close>

definition cancel_pending :: "timestamp \<Rightarrow> action_id \<Rightarrow> string option" where
  "cancel_pending w aid = Some ACTION_CANCEL"

section \<open>Properties\<close>

subsection \<open>The outcome of ActionProc\<close>

lemma after_steps_Suc_end:
  "after_steps execute w (Suc n) = snd (execute (after_steps execute w n))"
  by (induction n arbitrary: w) simp_all

lemma retry_while_unroll:
  "\<forall>j<k. fst (execute (after_steps execute w j)) = RES_RETRY \<Longrightarrow>
   retry_while execute RES_RETRY w tr =
   retry_while execute RES_RETRY (after_steps execute w k) (tr @ replicate k (Execute RES_RETRY))"
proof (induction k arbitrary: w tr)
  case 0
  then show ?case by simp
next
  case (Suc k)
  from Suc.prems have first: "fst (execute w) = RES_RETRY"
    by (metis after_steps.simps(1) zero_less_Suc)
  from Suc.prems have rest: "\<forall>j<k. fst (execute (after_steps execute (snd (execute w)) j)) = RES_RETRY"
    by (metis Suc_less_eq after_steps.simps(2))
  have "retry_while execute RES_RETRY w tr =
        retry_while execute RES_RETRY (snd (execute w)) (tr @ [Execute RES_RETRY])"
    using first by (subst retry_while.simps) (simp add: case_prod_beta)
  also have "\<dots> = retry_while execute RES_RETRY (after_steps execute (snd (execute w)) k)
                     ((tr @ [Execute RES_RETRY]) @ replicate k (Execute RES_RETRY))"
    by (rule Suc.IH [OF rest])
  finally show ?case by (simp add: replicate_app_Cons_same)
qed

lemma retry_while_stop:
  "r \<noteq> RES_RETRY \<Longrightarrow> retry_while execute r w tr = Some (r, w, tr)"
  by (subst retry_while.simps) simp

lemma ActionProc_loop:
  "(case execute w of (result0, w0) \<Rightarrow> retry_while execute result0 w0 [Execute result0]) =
   retry_while execute RES_RETRY w []"
  by (subst (2) retry_while.simps) simp

lemma retry_while_result:
  assumes "\<forall>j<k. fst (execute (after_steps execute w j)) = RES_RETRY"
      and "fst (execute (after_steps execute w k)) = r" and "r \<noteq> RES_RETRY"
  shows "retry_while execute RES_RETRY w tr =
         Some (r, after_steps execute w (Suc k), tr @ replicate k (Execute RES_RETRY) @ [Execute r])"
proof -
  have "retry_while execute RES_RETRY w tr =
        retry_while execute RES_RETRY (after_steps execute w k) (tr @ replicate k (Execute RES_RETRY))"
    by (rule retry_while_unroll [OF assms(1)])
  also have "\<dots> = retry_while execute r (after_steps execute w (Suc k))
                     ((tr @ replicate k (Execute RES_RETRY)) @ [Execute r])"
    using assms(2) by (subst retry_while.simps) (simp add: case_prod_beta after_steps_Suc_end del: after_steps.simps)
  also have "\<dots> = Some (r, after_steps execute w (Suc k), (tr @ replicate k (Execute RES_RETRY)) @ [Execute r])"
    by (rule retry_while_stop [OF assms(3)])
  finally show ?thesis by simp
qed

lemma retry_while_returns_only_after_non_retry:
  assumes "retry_while execute r w tr = Some y"
  shows "r = RES_RETRY \<longrightarrow> (\<exists>k. fst (execute (after_steps execute w k)) \<noteq> RES_RETRY)"
proof (rule retry_while.raw_induct
    [where P = "\<lambda>ex r w tr y. r = RES_RETRY \<longrightarrow> (\<exists>k. fst (ex (after_steps ex w k)) \<noteq> RES_RETRY)",
     OF _ assms])
  fix f :: "('a \<Rightarrow> result \<times> 'a) \<Rightarrow> result \<Rightarrow> 'a \<Rightarrow> event list \<Rightarrow> (result \<times> 'a \<times> event list) option"
  fix ex res v t z
  assume IH: "\<And>ex r w tr y. f ex r w tr = Some y \<Longrightarrow>
                r = RES_RETRY \<longrightarrow> (\<exists>k. fst (ex (after_steps ex w k)) \<noteq> RES_RETRY)"
    and body: "(if res = RES_RETRY
                then case ex v of (result', w') \<Rightarrow> f ex result' w' (t @ [Execute result'])
                else Some (res, v, t)) = Some z"
  show "res = RES_RETRY \<longrightarrow> (\<exists>k. fst (ex (after_steps ex v k)) \<noteq> RES_RETRY)"
  proof
    assume retry: "res = RES_RETRY"
    obtain r' w' where ex: "ex v = (r', w')" by (cases "ex v")
    show "\<exists>k. fst (ex (after_steps ex v k)) \<noteq> RES_RETRY"
    proof (cases "r' = RES_RETRY")
      case True
      from body retry ex have "f ex r' w' (t @ [Execute r']) = Some z" by simp
      from IH [OF this] True obtain k where "fst (ex (after_steps ex w' k)) \<noteq> RES_RETRY"
        by blast
      with ex have "fst (ex (after_steps ex v (Suc k))) \<noteq> RES_RETRY" by simp
      then show ?thesis ..
    next
      case False
      with ex have "fst (ex (after_steps ex v 0)) \<noteq> RES_RETRY" by simp
      then show ?thesis ..
    qed
  qed
qed

text \<open>A step that returns RETRY for ever keeps \<open>ActionProc\<close> in its loop: it never returns.\<close>

lemma ActionProc_retries_forever:
  assumes "\<forall>j. fst (execute (after_steps execute w j)) = RES_RETRY"
  shows "ActionProc execute wallclock action wait_time w = None"
proof -
  have "retry_while execute RES_RETRY w [] = None"
  proof (cases "retry_while execute RES_RETRY w []")
    case (Some y)
    from retry_while_returns_only_after_non_retry [OF Some] assms show ?thesis by blast
  qed simp
  then have "(case execute w of (result0, w0) \<Rightarrow> retry_while execute result0 w0 [Execute result0]) = None"
    by (simp only: ActionProc_loop)
  then show ?thesis
    by (simp add: ActionProc_def case_prod_beta)
qed

text \<open>
  Claim C1.  When the step returns RETRY \<open>k\<close> times and then an outcome \<open>r\<close> other than
  RETRY, \<open>ActionProc\<close> returns, having called \<open>execute\<close> exactly \<open>k + 1\<close> times and then
  \<open>action_mark_succeeded\<close> for OK, \<open>action_mark_failed\<close> for ERROR,
  \<open>action_mark_cancelled\<close> for CANCEL, each with the action's id and the clock read after
  the last step, and no database call at all for TIMEOUT.
\<close>

theorem ActionProc_outcome_mapping:
  assumes "\<forall>j<k. fst (execute (after_steps execute w j)) = RES_RETRY"
      and "fst (execute (after_steps execute w k)) = r" and "r \<noteq> RES_RETRY"
  shows "ActionProc execute wallclock action wait_time w =
         Some (replicate k (Execute RES_RETRY) @ [Execute r] @
                 (case r of
                    RES_OK \<Rightarrow> [DB_action_mark_succeeded (id' action) (wallclock (after_steps execute w (Suc k)))]
                  | RES_ERROR \<Rightarrow> [DB_action_mark_failed (id' action) (wallclock (after_steps execute w (Suc k)))]
                  | RES_CANCEL \<Rightarrow> [DB_action_mark_cancelled (id' action) (wallclock (after_steps execute w (Suc k)))]
                  | RES_TIMEOUT \<Rightarrow> []
                  | RES_RETRY \<Rightarrow> []),
               after_steps execute w (Suc k))"
proof -
  have loop: "(case execute w of (result0, w0) \<Rightarrow> retry_while execute result0 w0 [Execute result0]) =
        Some (r, after_steps execute w (Suc k), replicate k (Execute RES_RETRY) @ [Execute r])"
    using retry_while_result [OF assms, of "[]"] by (simp only: ActionProc_loop append_Nil)
  have "ActionProc execute wallclock action wait_time w =
        (case (case execute w of (result0, w0) \<Rightarrow> retry_while execute result0 w0 [Execute result0]) of
           None \<Rightarrow> None
         | Some (result, w1, tr) \<Rightarrow>
             (let timestamp = wallclock w1 in
              if result = RES_ERROR then Some (tr @ [DB_action_mark_failed (id' action) timestamp], w1)
              else if result = RES_OK then Some (tr @ [DB_action_mark_succeeded (id' action) timestamp], w1)
              else if result = RES_CANCEL then Some (tr @ [DB_action_mark_cancelled (id' action) timestamp], w1)
              else Some (tr, w1)))"
    by (simp add: ActionProc_def case_prod_beta)
  also have "\<dots> = Some (replicate k (Execute RES_RETRY) @ [Execute r] @
                 (case r of
                    RES_OK \<Rightarrow> [DB_action_mark_succeeded (id' action) (wallclock (after_steps execute w (Suc k)))]
                  | RES_ERROR \<Rightarrow> [DB_action_mark_failed (id' action) (wallclock (after_steps execute w (Suc k)))]
                  | RES_CANCEL \<Rightarrow> [DB_action_mark_cancelled (id' action) (wallclock (after_steps execute w (Suc k)))]
                  | RES_TIMEOUT \<Rightarrow> []
                  | RES_RETRY \<Rightarrow> []),
               after_steps execute w (Suc k))"
    unfolding loop using assms(3) by (cases r) (simp_all del: after_steps.simps)
  finally show ?thesis .
qed

theorem ActionProc_outcome_mapping_witness:
  "ActionProc retry_twice real a1 (Some 1) 0 =
     Some ([Execute RES_RETRY, Execute RES_RETRY, Execute RES_OK, DB_action_mark_succeeded ''a1'' 3], 3)"
proof -
  have h1: "\<forall>j<2. fst (retry_twice (after_steps retry_twice 0 j)) = RES_RETRY"
    by (simp add: retry_twice_def less_Suc_eq numeral_2_eq_2)
  have h2: "fst (retry_twice (after_steps retry_twice 0 2)) = RES_OK"
    by (simp add: retry_twice_def numeral_2_eq_2)
  have h3: "RES_OK \<noteq> RES_RETRY" by simp
  have h4: "after_steps retry_twice 0 (Suc 2) = 3"
    by (simp add: retry_twice_def numeral_2_eq_2)
  show ?thesis
    using ActionProc_outcome_mapping [OF h1 h2 h3, of real "a1" "Some 1"]
    unfolding h4 by (simp add: numeral_2_eq_2 a1_def)
qed


text \<open>
  The \<open>wait_time\<close> parameter is not used in the body: the loop calls \<open>execute\<close> again
  at once, and neither \<open>reschedule\<close> nor \<open>eventlet.sleep\<close> is called.
\<close>

lemma ActionProc_ignores_wait_time:
  "ActionProc execute wallclock action wait_time w = ActionProc execute wallclock action wait_time' w"
  by (simp add: ActionProc_def)

text \<open>
  Claim C2 says that after a RETRY the runner sleeps for \<open>wait_time\<close> before the next
  step.  On a step that returns RETRY once and then OK, with \<open>wait_time = 1\<close>, the code
  makes the two calls of \<open>execute\<close> one after the other, with no sleep between them.
\<close>

theorem ActionProc_retry_without_sleep:
  "ActionProc retry_once real a1 (Some 1) 0 =
     Some ([Execute RES_RETRY, Execute RES_OK, DB_action_mark_succeeded ''a1'' 2], 2)"
  by (simp add: ActionProc_def retry_while.simps retry_once_def a1_def)

subsection \<open>start_action\<close>

text \<open>
  When the lock is acquired and the manager returns a false handle, the lock is
  released, and the function ends without a \<open>return\<close>: the caller gets \<open>None\<close>.
\<close>

lemma start_action_spawn_failure:
  "action_acquire action_id engine_id now \<Longrightarrow>
   fst (tgm_start_action_thread tgm ((load action_id)\<lparr>start_time := now\<rparr>)) = None \<Longrightarrow>
   start_action load action_acquire tgm_start_action_thread now action_id engine_id tgm =
     (Py_None,
      [Action_load action_id, DB_action_acquire action_id engine_id now,
       Start_action_thread (id' (load action_id)), DB_action_release action_id engine_id],
      snd (tgm_start_action_thread tgm ((load action_id)\<lparr>start_time := now\<rparr>)))"
  by (simp add: start_action_def Let_def case_prod_beta)

text \<open>When the thread starts, the result is \<open>True\<close> and the lock is kept.\<close>

lemma start_action_started:
  "action_acquire action_id engine_id now \<Longrightarrow>
   start_action load action_acquire tgm_method now action_id engine_id tgm =
     (Py_True,
      [Action_load action_id, DB_action_acquire action_id engine_id now,
       Start_action_thread (id' (load action_id))],
      snd (start_action_thread tgm ((load action_id)\<lparr>start_time := now\<rparr>)))"
  by (simp add: start_action_def tgm_method_def Let_def case_prod_beta)

text \<open>
  Claim C3 says that after a successful acquire and a failed spawn the lock is released
  and \<open>start_action\<close> returns false.  With a free lock and a manager that returns no
  handle, the code releases the lock with the same action id and engine id, and
  returns \<open>None\<close>, not \<open>False\<close>.
\<close>

theorem start_action_spawn_failure_returns_None:
  "start_action load_any lock_free never_spawns 7 ''a1'' ''e1'' () =
     (Py_None,
      [Action_load ''a1'', DB_action_acquire ''a1'' ''e1'' 7,
       Start_action_thread ''a1'', DB_action_release ''a1'' ''e1''],
      ())"
  by (simp add: start_action_def load_any_def lock_free_def never_spawns_def)

text \<open>
  Claim C4.  When \<open>action_acquire\<close> fails, \<open>start_action\<close> returns \<open>False\<close>; the only calls
  made are the load of the action and the acquire: no thread is started, the manager is
  unchanged, and no status is written.
\<close>

theorem start_action_lock_failure:
  "\<not> action_acquire action_id engine_id now \<Longrightarrow>
   start_action load action_acquire tgm_start_action_thread now action_id engine_id tgm =
     (Py_False, [Action_load action_id, DB_action_acquire action_id engine_id now], tgm)"
  by (simp add: start_action_def Let_def)

theorem start_action_lock_failure_witness:
  "\<not> lock_taken ''a1'' ''e1'' 7 \<and>
   start_action load_any lock_taken tgm_method 7 ''a1'' ''e1'' (init 60) =
     (Py_False, [Action_load ''a1'', DB_action_acquire ''a1'' ''e1'' 7], init 60)"
proof -
  have h: "\<not> lock_taken ''a1'' ''e1'' 7" by (simp add: lock_taken_def)
  show ?thesis
    using h start_action_lock_failure
      [where action_acquire = lock_taken and action_id = "''a1''" and engine_id = "''e1''"
         and now = 7 and load = load_any and tgm_start_action_thread = tgm_method
         and tgm = "init 60", OF h]
    by simp
qed

subsection \<open>The control flag and the timeout\<close>

text \<open>
  Claim C5.  For an action with a timeout whose elapsed time is greater than the
  timeout, \<open>action_control_flag\<close> returns \<open>timeout\<close> and does not read the store,
  whatever flag the store holds; in every other case it reads the store and returns
  what it holds.
\<close>

theorem action_control_flag_timeout_first:
  "(timeout action = Some t \<and> wallclock w - start_time action > t \<longrightarrow>
      action_control_flag wallclock action_control_check action w = Inr (Some ACTION_TIMEOUT, []))
   \<and> (\<not> (\<exists>t. timeout action = Some t \<and> wallclock w - start_time action > t) \<longrightarrow>
      action_control_flag wallclock action_control_check action w =
        Inr (action_control_check w (id' action), [DB_action_control_check (id' action)]))"
  by (cases "timeout action") (simp_all add: action_control_flag_def action_timeout_def)

theorem action_control_flag_timeout_first_witness:
  "timeout a5 = Some 5 \<and> id (6::real) - start_time a5 > 5 \<and>
   action_control_flag id cancel_pending a5 6 = Inr (Some ''timeout'', []) \<and>
   \<not> (\<exists>t. timeout a5 = Some t \<and> id (4::real) - start_time a5 > t) \<and>
   action_control_flag id cancel_pending a5 4 = Inr (Some ''cancel'', [DB_action_control_check ''a5''])"
  using action_control_flag_timeout_first [of a5 5 id 6 cancel_pending]
        action_control_flag_timeout_first [of a5 5 id 4 cancel_pending]
  by (simp add: a5_def ACTION_TIMEOUT_def cancel_pending_def ACTION_CANCEL_def)

text \<open>
  Claim C10.  \<open>action_timeout\<close> raises \<open>TypeError\<close> for an action without a timeout and
  returns a boolean for one with a timeout; \<open>action_control_flag\<close> does not call it for
  an action without a timeout, reads the store instead, and never raises.
\<close>

theorem action_timeout_partial:
  "action_timeout wallclock (action\<lparr>timeout := None\<rparr>) w = Inl TypeError
   \<and> action_timeout wallclock (action\<lparr>timeout := Some t\<rparr>) w =
       Inr (wallclock w - start_time action > t)
   \<and> action_control_flag wallclock action_control_check (action\<lparr>timeout := None\<rparr>) w =
       Inr (action_control_check w (id' action), [DB_action_control_check (id' action)])
   \<and> (\<exists>r. action_control_flag wallclock action_control_check action w = Inr r)"
  by (cases "timeout action") (simp_all add: action_control_flag_def action_timeout_def)

theorem action_timeout_partial_witness:
  "action_timeout id a1 (6::real) = Inl TypeError
   \<and> action_timeout id a5 (6::real) = Inr True
   \<and> action_control_flag id cancel_pending a1 6 = Inr (Some ''cancel'', [DB_action_control_check ''a1''])
   \<and> (\<exists>r. action_control_flag id cancel_pending a5 6 = Inr r)"
  using action_timeout_partial [of id a1 6 5 cancel_pending]
        action_timeout_partial [of id a5 6 5 cancel_pending]
  by (simp add: a1_def a5_def cancel_pending_def ACTION_CANCEL_def)

subsection \<open>action_wait\<close>

lemma action_control_flag_total:
  "\<exists>flag tr. action_control_flag wallclock action_control_check action w = Inr (flag, tr)"
  by (cases "timeout action") (simp_all add: action_control_flag_def action_timeout_def)

lemma action_resumed_total:
  "action_resumed wallclock action_control_check action w =
     Inr (fst (projr (action_resumed wallclock action_control_check action w)),
          snd (projr (action_resumed wallclock action_control_check action w)))"
proof -
  obtain flag tr where "action_control_flag wallclock action_control_check action w = Inr (flag, tr)"
    using action_control_flag_total [of wallclock action_control_check action w] by blast
  then show ?thesis by (simp add: action_resumed_def)
qed

lemma action_resumed_flag:
  assumes "fst (projr (action_resumed wallclock action_control_check action w))"
  shows "action_control_check w (id' action) = Some ACTION_RESUME"
proof (cases "timeout action")
  case None
  with assms show ?thesis
    by (simp add: action_resumed_def action_control_flag_def split: if_splits)
next
  case (Some t)
  with assms show ?thesis
    by (simp add: action_resumed_def action_control_flag_def action_timeout_def
          ACTION_RESUME_def ACTION_TIMEOUT_def split: if_splits)
qed

lemma action_wait_step:
  assumes "\<not> fst (projr (action_resumed wallclock action_control_check action w))"
  shows "action_wait wallclock action_control_check eventlet_sleep action w tr =
         action_wait wallclock action_control_check eventlet_sleep action (eventlet_sleep 1 w)
           (tr @ snd (projr (action_resumed wallclock action_control_check action w)) @ [Sleep 1])"
  by (subst action_wait.simps, subst action_resumed_total) (simp add: assms reschedule_def)

lemma action_wait_stop:
  assumes "fst (projr (action_resumed wallclock action_control_check action w))"
  shows "action_wait wallclock action_control_check eventlet_sleep action w tr =
         Some (Inr (tr @ snd (projr (action_resumed wallclock action_control_check action w)), w))"
  by (subst action_wait.simps, subst action_resumed_total) (simp add: assms)

lemma upt_0_Suc_shift: "[0..<Suc k] = 0 # map Suc [0..<k]"
  by (simp add: upt_conv_Cons map_Suc_upt del: upt_Suc)

lemma action_wait_unroll:
  "\<forall>j<k. \<not> fst (projr (action_resumed wallclock action_control_check action
                          (after_sleeps eventlet_sleep w j))) \<Longrightarrow>
   action_wait wallclock action_control_check eventlet_sleep action w tr =
   action_wait wallclock action_control_check eventlet_sleep action (after_sleeps eventlet_sleep w k)
     (tr @ concat (map (\<lambda>j. snd (projr (action_resumed wallclock action_control_check action
                                          (after_sleeps eventlet_sleep w j))) @ [Sleep 1])
                    [0..<k]))"
proof (induction k arbitrary: w tr)
  case 0
  then show ?case by simp
next
  case (Suc k)
  from Suc.prems have first: "\<not> fst (projr (action_resumed wallclock action_control_check action w))"
    by (metis after_sleeps.simps(1) zero_less_Suc)
  from Suc.prems have rest:
    "\<forall>j<k. \<not> fst (projr (action_resumed wallclock action_control_check action
                           (after_sleeps eventlet_sleep (eventlet_sleep 1 w) j)))"
    by (metis Suc_less_eq after_sleeps.simps(2))
  show ?case
    unfolding action_wait_step [OF first] Suc.IH [OF rest] upt_0_Suc_shift
    by (simp add: comp_def)
qed

text \<open>
  If the resume flag is seen at poll \<open>k\<close> and at no poll before, \<open>action_wait\<close> returns
  there, after \<open>k\<close> sleeps of one second.
\<close>

lemma action_wait_returns_when_resumed:
  assumes "\<forall>j<k. \<not> fst (projr (action_resumed wallclock action_control_check action
                          (after_sleeps eventlet_sleep w j)))"
      and "fst (projr (action_resumed wallclock action_control_check action
                          (after_sleeps eventlet_sleep w k)))"
  shows "action_wait wallclock action_control_check eventlet_sleep action w tr =
         Some (Inr (tr @ concat (map (\<lambda>j. snd (projr (action_resumed wallclock action_control_check action
                                          (after_sleeps eventlet_sleep w j))) @ [Sleep 1])
                    [0..<k])
                       @ snd (projr (action_resumed wallclock action_control_check action
                                          (after_sleeps eventlet_sleep w k))),
                    after_sleeps eventlet_sleep w k))"
  unfolding action_wait_unroll [OF assms(1)] action_wait_stop [OF assms(2)] by simp

lemma action_wait_Some_resumed:
  assumes "action_wait wallclock action_control_check eventlet_sleep action w tr = Some res"
  shows "\<exists>k. fst (projr (action_resumed wallclock action_control_check action
                          (after_sleeps eventlet_sleep w k)))"
proof (rule action_wait.raw_induct
    [where P = "\<lambda>wc ck sl a w tr res. \<exists>k. fst (projr (action_resumed wc ck a (after_sleeps sl w k)))",
     OF _ assms])
  fix f :: "('a \<Rightarrow> timestamp) \<Rightarrow> ('a \<Rightarrow> action_id \<Rightarrow> string option) \<Rightarrow> (timestamp \<Rightarrow> 'a \<Rightarrow> 'a)
     \<Rightarrow> action \<Rightarrow> 'a \<Rightarrow> event list \<Rightarrow> (error + (event list \<times> 'a)) option"
  fix wc ck sl a v t z
  assume IH: "\<And>wc ck sl a w tr res. f wc ck sl a w tr = Some res \<Longrightarrow>
                \<exists>k. fst (projr (action_resumed wc ck a (after_sleeps sl w k)))"
    and body: "(case action_resumed wc ck a v of
                  Inl e \<Rightarrow> Some (Inl e)
                | Inr (resumed, evs) \<Rightarrow>
                    if \<not> resumed
                    then (case reschedule sl a (Some 1) v of
                            (evs', w') \<Rightarrow> f wc ck sl a w' (t @ evs @ evs'))
                    else Some (Inr (t @ evs, v))) = Some z"
  show "\<exists>k. fst (projr (action_resumed wc ck a (after_sleeps sl v k)))"
  proof (cases "fst (projr (action_resumed wc ck a v))")
    case True
    then have "fst (projr (action_resumed wc ck a (after_sleeps sl v 0)))" by simp
    then show ?thesis ..
  next
    case False
    from body have "f wc ck sl a (sl 1 v) (t @ snd (projr (action_resumed wc ck a v)) @ [Sleep 1]) = Some z"
      by (subst (asm) action_resumed_total) (simp add: False reschedule_def)
    from IH [OF this] obtain k where "fst (projr (action_resumed wc ck a (after_sleeps sl (sl 1 v) k)))" ..
    then have "fst (projr (action_resumed wc ck a (after_sleeps sl v (Suc k))))" by simp
    then show ?thesis ..
  qed
qed

text \<open>If the resume flag is never seen, \<open>action_wait\<close> never returns.\<close>

lemma action_wait_never_resumed:
  assumes "\<forall>k. \<not> fst (projr (action_resumed wallclock action_control_check action
                          (after_sleeps eventlet_sleep w k)))"
  shows "action_wait wallclock action_control_check eventlet_sleep action w tr = None"
proof (cases "action_wait wallclock action_control_check eventlet_sleep action w tr")
  case (Some res)
  from action_wait_Some_resumed [OF Some] assms show ?thesis by blast
qed simp

text \<open>
  Claim C6.  When \<open>action_wait\<close> returns, it returns at a poll \<open>k\<close> where
  \<open>action_resumed\<close> is true, so the store holds \<open>resume\<close> for the action's id there;
  at every poll before, whatever flag was set, \<open>action_resumed\<close> was false and the task
  went to sleep for one second; the calls made are the polls with one sleep of one
  second after each poll but the last.
\<close>

theorem action_wait_returns_only_after_resume:
  assumes "action_wait wallclock action_control_check eventlet_sleep action w [] = Some res"
  shows "\<exists>k. (\<forall>j<k. \<not> fst (projr (action_resumed wallclock action_control_check action
                              (after_sleeps eventlet_sleep w j))))
            \<and> fst (projr (action_resumed wallclock action_control_check action
                              (after_sleeps eventlet_sleep w k)))
            \<and> action_control_check (after_sleeps eventlet_sleep w k) (id' action) = Some ACTION_RESUME
            \<and> res = Inr (concat (map (\<lambda>j. snd (projr (action_resumed wallclock action_control_check action
                                          (after_sleeps eventlet_sleep w j))) @ [Sleep 1])
                                  [0..<k])
                           @ snd (projr (action_resumed wallclock action_control_check action
                                          (after_sleeps eventlet_sleep w k))),
                         after_sleeps eventlet_sleep w k)"
proof -
  define R where "R k = fst (projr (action_resumed wallclock action_control_check action
                              (after_sleeps eventlet_sleep w k)))" for k
  from action_wait_Some_resumed [OF assms] have ex: "\<exists>k. R k" by (simp add: R_def)
  define k where "k = (LEAST k. R k)"
  from ex have Rk: "R k" unfolding k_def by (metis LeastI)
  have before: "\<forall>j<k. \<not> R j" unfolding k_def using not_less_Least by blast
  have flag: "action_control_check (after_sleeps eventlet_sleep w k) (id' action) = Some ACTION_RESUME"
    using Rk unfolding R_def by (rule action_resumed_flag)
  have "action_wait wallclock action_control_check eventlet_sleep action w [] =
        Some (Inr ([] @ concat (map (\<lambda>j. snd (projr (action_resumed wallclock action_control_check action
                                          (after_sleeps eventlet_sleep w j))) @ [Sleep 1])
                    [0..<k])
                       @ snd (projr (action_resumed wallclock action_control_check action
                                          (after_sleeps eventlet_sleep w k))),
                    after_sleeps eventlet_sleep w k))"
    using before Rk unfolding R_def by (intro action_wait_returns_when_resumed)
  with assms have res: "res = Inr (concat (map (\<lambda>j. snd (projr (action_resumed wallclock action_control_check action
                                          (after_sleeps eventlet_sleep w j))) @ [Sleep 1])
                                  [0..<k])
                           @ snd (projr (action_resumed wallclock action_control_check action
                                          (after_sleeps eventlet_sleep w k))),
                         after_sleeps eventlet_sleep w k)"
    by simp
  from before Rk flag res show ?thesis unfolding R_def by blast
qed

lemma wait_example:
  "action_wait real flags_over_time one_more_sleep a1 0 [] =
     Some (Inr ([DB_action_control_check ''a1'', Sleep 1, DB_action_control_check ''a1'', Sleep 1,
                 DB_action_control_check ''a1''], 2))"
  by (simp add: action_wait.simps action_resumed_def action_control_flag_def reschedule_def
        flags_over_time_def one_more_sleep_def a1_def ACTION_RESUME_def ACTION_SUSPEND_def
        ACTION_CANCEL_def)

theorem action_wait_returns_only_after_resume_witness:
  "action_wait real flags_over_time one_more_sleep a1 0 [] =
     Some (Inr ([DB_action_control_check ''a1'', Sleep 1, DB_action_control_check ''a1'', Sleep 1,
                 DB_action_control_check ''a1''], 2))
   \<and> (\<exists>k. (\<forall>j<k. \<not> fst (projr (action_resumed real flags_over_time a1
                              (after_sleeps one_more_sleep 0 j))))
            \<and> fst (projr (action_resumed real flags_over_time a1 (after_sleeps one_more_sleep 0 k)))
            \<and> flags_over_time (after_sleeps one_more_sleep 0 k) (id' a1) = Some ACTION_RESUME
            \<and> (Inr ([DB_action_control_check ''a1'', Sleep 1, DB_action_control_check ''a1'', Sleep 1,
                      DB_action_control_check ''a1''], 2) :: error + event list \<times> nat)
                = Inr (concat (map (\<lambda>j. snd (projr (action_resumed real flags_over_time a1
                                          (after_sleeps one_more_sleep 0 j))) @ [Sleep 1])
                                  [0..<k])
                           @ snd (projr (action_resumed real flags_over_time a1
                                          (after_sleeps one_more_sleep 0 k))),
                         after_sleeps one_more_sleep 0 k))"
  by (rule conjI [OF wait_example action_wait_returns_only_after_resume [OF wait_example]])

subsection \<open>The thread group manager\<close>

text \<open>What calling a callback changes, and when \<open>call_link\<close> does nothing.\<close>

lemma call_fields:
  "group_created (call cb self) = group_created self"
  "group_exited (call cb self) = group_exited self"
  "group_links (call cb self) = group_links self"
  "group_timers (call cb self) = group_timers self"
  by (cases cb; cases "threads self (case cb of Release a \<Rightarrow> a | Mark_done h \<Rightarrow> [])";
      simp add: call_def release_def mark_done_def)+

lemma call_Release_threads:
  "threads (call (Release b) self) aid = (if aid = b then None else threads self aid)"
  by (cases "threads self b") (auto simp: call_def release_def)

lemma call_Mark_done_threads:
  "threads (call (Mark_done h) self) = threads self"
  by (simp add: call_def mark_done_def)



lemma call_threads_subset:
  "threads (call cb self) aid = Some th \<Longrightarrow> threads self aid = Some th"
  by (cases cb) (simp_all add: call_Release_threads call_Mark_done_threads split: if_splits)

lemma call_link_skip:
  "\<not> (th < group_created self \<and> th \<in> set (group_exited self)) \<Longrightarrow> call_link th self = self"
  by (auto simp: call_link_def)

lemma call_link_empty:
  "group_links self th = [] \<Longrightarrow> call_link th self = self"
  by (auto simp: call_link_def)

lemma call_link_Cons:
  "th < group_created self \<Longrightarrow> th \<in> set (group_exited self) \<Longrightarrow> group_links self th = cb # cbs \<Longrightarrow>
   call_link th self = call cb (self\<lparr>group_links := (group_links self)(th := cbs)\<rparr>)"
  by (simp add: call_link_def)

lemma filter_eq_upt: "th < n \<Longrightarrow> filter (\<lambda>th'. th' = th) [0..<n] = [th]"
proof (induction n)
  case 0
  then show ?case by simp
next
  case (Suc n)
  show ?case
  proof (cases "th = n")
    case True
    then have "filter (\<lambda>th'. th' = th) [0..<n] = []"
      by (simp add: filter_empty_conv)
    with True show ?thesis by simp
  next
    case False
    with Suc show ?thesis by simp
  qed
qed

text \<open>\<open>tgm_inv\<close> holds of a new manager and is kept by every event.\<close>

lemma tgm_inv_init: "tgm_inv (init periodic_interval)"
  by (simp add: tgm_inv_def init_def add_timer_def)

lemma tgm_inv_spawn: "tgm_inv self \<Longrightarrow> tgm_inv (snd (start_action_thread self action))"
  unfolding tgm_inv_def
  by (fastforce simp: start_action_thread_def start_def link_def Let_def split: if_splits)

lemma tgm_inv_task_exit: "tgm_inv self \<Longrightarrow> tgm_inv (task_exit th self)"
  by (simp add: tgm_inv_def task_exit_def)

lemma tgm_inv_call_link:
  assumes "tgm_inv self"
  shows "tgm_inv (call_link th self)"
proof (cases "th < group_created self \<and> th \<in> set (group_exited self)")
  case False
  with assms show ?thesis by (simp add: call_link_skip)
next
  case guard: True
  show ?thesis
  proof (cases "group_links self th")
    case Nil
    with assms show ?thesis by (simp add: call_link_empty)
  next
    case (Cons cb cbs)
    let ?popped = "self\<lparr>group_links := (group_links self)(th := cbs)\<rparr>"
    have eq: "call_link th self = call cb ?popped"
      using guard Cons by (simp add: call_link_Cons)
    show ?thesis
      unfolding eq tgm_inv_def
    proof (intro allI impI)
      fix aid th'
      assume entry: "threads (call cb ?popped) aid = Some th'"
      then have old: "threads self aid = Some th'"
        using call_threads_subset [of cb ?popped aid th'] by simp
      with assms have created: "th' < group_created self"
        and linked: "Release aid \<in> set (group_links self th')"
        by (auto simp: tgm_inv_def)
      have "cb \<noteq> Release aid"
        using entry by (auto simp: call_Release_threads)
      with linked Cons have "Release aid \<in> set (((group_links self)(th := cbs)) th')"
        by auto
      with created
      show "th' < group_created (call cb ?popped) \<and>
            Release aid \<in> set (group_links (call cb ?popped) th')"
        by (simp add: call_fields)
    qed
  qed
qed

lemma tgm_inv_step: "tgm_inv self \<Longrightarrow> tgm_inv (tgm_step ev self)"
  by (cases ev) (simp_all add: tgm_inv_spawn tgm_inv_task_exit tgm_inv_call_link)

lemma tgm_inv_run: "tgm_inv self \<Longrightarrow> tgm_inv (tgm_run evs self)"
  by (induction evs arbitrary: self) (simp_all add: tgm_inv_step)

text \<open>
  \<open>guarded_inv\<close> holds of a new manager and is kept by every event of a guarded run;
  under it the running-task handles of an action id are what the dictionary holds.
\<close>

lemma guarded_inv_linked:
  "guarded_inv self \<Longrightarrow> Release aid \<in> set (group_links self th) \<longleftrightarrow> threads self aid = Some th"
  unfolding guarded_inv_def by blast

lemma guarded_inv_init: "guarded_inv (init periodic_interval)"
  by (simp add: guarded_inv_def init_def add_timer_def)

lemma running_tasks_guarded:
  assumes "guarded_inv self"
  shows "running_tasks self aid = (case threads self aid of None \<Rightarrow> [] | Some th \<Rightarrow> [th])"
proof (cases "threads self aid")
  case None
  with assms have "\<And>th. Release aid \<notin> set (group_links self th)"
    by (simp add: guarded_inv_def)
  with None show ?thesis by (simp add: running_tasks_def)
next
  case (Some th)
  with assms have iff: "\<And>th'. Release aid \<in> set (group_links self th') \<longleftrightarrow> th' = th"
    by (auto simp: guarded_inv_def)
  have "th < group_created self"
  proof (rule ccontr)
    assume "\<not> th < group_created self"
    with assms have "group_links self th = []" by (simp add: guarded_inv_def)
    with iff [of th] show False by simp
  qed
  then have "filter (\<lambda>th'. th' = th) [0..<group_created self] = [th]"
    by (rule filter_eq_upt)
  with Some iff show ?thesis by (simp add: running_tasks_def)
qed

lemma guarded_inv_spawn:
  assumes "guarded_inv self" and "running_tasks self (id' action) = []"
  shows "guarded_inv (snd (start_action_thread self action))"
proof -
  from assms have free: "threads self (id' action) = None"
    by (cases "threads self (id' action)") (simp_all add: running_tasks_guarded)
  from assms(1) have fresh: "group_links self (group_created self) = []"
    by (simp add: guarded_inv_def)
  have unused: "threads self aid \<noteq> Some (group_created self)" for aid
  proof
    assume "threads self aid = Some (group_created self)"
    with assms(1) have "Release aid \<in> set (group_links self (group_created self))"
      by (simp add: guarded_inv_linked)
    with fresh show False by simp
  qed
  from assms(1) free fresh unused show ?thesis
    unfolding guarded_inv_def
    by (auto simp: start_action_thread_def start_def link_def Let_def)
qed

lemma guarded_inv_task_exit: "guarded_inv self \<Longrightarrow> guarded_inv (task_exit th self)"
  by (simp add: guarded_inv_def task_exit_def)

lemma guarded_inv_call_link:
  assumes "guarded_inv self"
  shows "guarded_inv (call_link th self)"
proof (cases "th < group_created self \<and> th \<in> set (group_exited self)")
  case False
  with assms show ?thesis by (simp add: call_link_skip)
next
  case guard: True
  show ?thesis
  proof (cases "group_links self th")
    case Nil
    with assms show ?thesis by (simp add: call_link_empty)
  next
    case (Cons cb cbs)
    from assms have "length (group_links self th) \<le> 1" by (simp add: guarded_inv_def)
    with Cons have one: "group_links self th = [cb]" by simp
    let ?popped = "self\<lparr>group_links := (group_links self)(th := [])\<rparr>"
    have eq: "call_link th self = call cb ?popped"
      using guard one by (simp add: call_link_Cons)
    have linked: "Release aid \<in> set (group_links self th') \<longleftrightarrow> threads self aid = Some th'"
      for aid th'
      by (rule guarded_inv_linked [OF assms])
    have short: "length (((group_links self)(th := [])) th') \<le> 1" for th'
      using assms by (simp add: guarded_inv_def)
    have fresh: "group_created self \<le> th' \<Longrightarrow> ((group_links self)(th := [])) th' = []" for th'
      using assms by (simp add: guarded_inv_def)
    have map: "Release aid \<in> set (((group_links self)(th := [])) th') \<longleftrightarrow>
               threads (call cb ?popped) aid = Some th'" for aid th'
    proof (cases cb)
      case (Release b)
      from one Release linked [of b th] have entry: "threads self b = Some th" by simp
      show ?thesis
      proof (cases "th' = th")
        case True
        have "threads self aid = Some th \<Longrightarrow> aid = b"
          using linked [of aid th] one Release by simp
        with True show ?thesis
          by (auto simp: Release call_Release_threads)
      next
        case False
        with entry linked [of aid th'] show ?thesis
          by (auto simp: Release call_Release_threads)
      qed
    next
      case (Mark_done h)
      have "threads self aid \<noteq> Some th"
        using linked [of aid th] one Mark_done by simp
      with linked [of aid th'] show ?thesis
        by (auto simp: Mark_done call_Mark_done_threads)
    qed
    show ?thesis
      unfolding eq guarded_inv_def
      using map short fresh by (simp add: call_fields)
  qed
qed

lemma guarded_inv_run:
  "guarded_inv self \<Longrightarrow> spawns_guarded evs self \<Longrightarrow> guarded_inv (tgm_run evs self)"
proof (induction evs arbitrary: self)
  case Nil
  then show ?case by simp
next
  case (Cons ev evs)
  then show ?case
    by (cases ev) (simp_all add: guarded_inv_spawn guarded_inv_task_exit guarded_inv_call_link)
qed

lemmas tgm_eval = call_def init_def add_timer_def start_action_thread_def start_def link_def
        task_exit_def call_link_def release_def mark_done_def running_tasks_def a1_def a2_def

text \<open>
  Claim C7 says that every spawn keeps at most one running-task handle per action id.
  \<open>start_action_thread\<close> does not look whether the action already has a thread: after
  two spawns for the action \<open>a1\<close> there are two running-task handles for it, threads 0
  and 1; and when thread 0 has exited and its callback has been called, the dictionary
  has no entry for \<open>a1\<close> although thread 1 is still a running-task handle of it.
\<close>

theorem running_task_handles_counterexample:
  "running_tasks (tgm_run [Spawn a1, Spawn a1] (init 60)) ''a1'' = [0, 1] \<and>
   \<not> length (running_tasks (tgm_run [Spawn a1, Spawn a1] (init 60)) ''a1'') \<le> 1 \<and>
   threads (tgm_run [Spawn a1, Spawn a1, Task_exit 0, Call_link 0] (init 60)) ''a1'' = None \<and>
   running_tasks (tgm_run [Spawn a1, Spawn a1, Task_exit 0, Call_link 0] (init 60)) ''a1'' = [1]"
  by (simp add: tgm_eval)

text \<open>
  Claim C7, amended.  After any sequence of spawns, task exits and callback calls, from
  a new manager, every handle in the dictionary belongs to a thread that was created
  and whose \<open>release\<close> callback has not been called: it is a running-task handle of its
  action id.  If, moreover, every spawn in the sequence is for an action id that has no
  running-task handle at that moment, then every action id has at most one
  running-task handle, and it is the one in the dictionary.
\<close>

theorem running_task_handles_invariant:
  "(\<forall>aid th. threads (tgm_run evs (init periodic_interval)) aid = Some th \<longrightarrow>
      th < group_created (tgm_run evs (init periodic_interval)) \<and>
      Release aid \<in> set (group_links (tgm_run evs (init periodic_interval)) th) \<and>
      th \<in> set (running_tasks (tgm_run evs (init periodic_interval)) aid))
   \<and> (spawns_guarded evs (init periodic_interval) \<longrightarrow>
        (\<forall>aid. length (running_tasks (tgm_run evs (init periodic_interval)) aid) \<le> 1 \<and>
               running_tasks (tgm_run evs (init periodic_interval)) aid =
                 (case threads (tgm_run evs (init periodic_interval)) aid of
                    None \<Rightarrow> [] | Some th \<Rightarrow> [th])))"
proof (intro conjI impI allI)
  fix aid th
  assume entry: "threads (tgm_run evs (init periodic_interval)) aid = Some th"
  have "tgm_inv (tgm_run evs (init periodic_interval))"
    by (rule tgm_inv_run [OF tgm_inv_init])
  with entry show "th < group_created (tgm_run evs (init periodic_interval))"
    and "Release aid \<in> set (group_links (tgm_run evs (init periodic_interval)) th)"
    and "th \<in> set (running_tasks (tgm_run evs (init periodic_interval)) aid)"
    by (simp_all add: tgm_inv_def running_tasks_def)
next
  fix aid
  assume "spawns_guarded evs (init periodic_interval)"
  then have inv: "guarded_inv (tgm_run evs (init periodic_interval))"
    by (rule guarded_inv_run [OF guarded_inv_init])
  show eq: "running_tasks (tgm_run evs (init periodic_interval)) aid =
        (case threads (tgm_run evs (init periodic_interval)) aid of None \<Rightarrow> [] | Some th \<Rightarrow> [th])"
    by (rule running_tasks_guarded [OF inv])
  show "length (running_tasks (tgm_run evs (init periodic_interval)) aid) \<le> 1"
    unfolding eq by (simp split: option.split)
qed

lemma guarded_example:
  "spawns_guarded [Spawn a1, Spawn a2, Task_exit 0, Call_link 0, Spawn a1] (init 60)"
  "threads (tgm_run [Spawn a1, Spawn a2, Task_exit 0, Call_link 0, Spawn a1] (init 60)) ''a1'' = Some 2"
  by (simp_all add: tgm_eval)

theorem running_task_handles_invariant_witness:
  "spawns_guarded [Spawn a1, Spawn a2, Task_exit 0, Call_link 0, Spawn a1] (init 60) \<and>
   threads (tgm_run [Spawn a1, Spawn a2, Task_exit 0, Call_link 0, Spawn a1] (init 60)) ''a1'' = Some 2 \<and>
   2 < group_created (tgm_run [Spawn a1, Spawn a2, Task_exit 0, Call_link 0, Spawn a1] (init 60)) \<and>
   Release ''a1'' \<in> set (group_links (tgm_run [Spawn a1, Spawn a2, Task_exit 0, Call_link 0, Spawn a1] (init 60)) 2) \<and>
   running_tasks (tgm_run [Spawn a1, Spawn a2, Task_exit 0, Call_link 0, Spawn a1] (init 60)) ''a1'' = [2] \<and>
   length (running_tasks (tgm_run [Spawn a1, Spawn a2, Task_exit 0, Call_link 0, Spawn a1] (init 60)) ''a1'') \<le> 1"
  using running_task_handles_invariant
          [of "[Spawn a1, Spawn a2, Task_exit 0, Call_link 0, Spawn a1]" 60]
        guarded_example
  by (simp split: option.splits)

subsection \<open>ThreadGroupManager.stop\<close>





lemma call_link_exited: "group_exited (call_link th self) = group_exited self"
  by (cases "group_links self th") (simp_all add: call_link_def call_fields)








text \<open>The state in which \<open>stop\<close> enters its loop.\<close>

lemma fold_link_marks:
  "distinct ths \<Longrightarrow>
   group_links (fold (\<lambda>th. link th (Mark_done th)) ths self) th =
     group_links self th @ (if th \<in> set ths then [Mark_done th] else []) \<and>
   threads (fold (\<lambda>th. link th (Mark_done th)) ths self) = threads self \<and>
   links_done (fold (\<lambda>th. link th (Mark_done th)) ths self) = links_done self \<and>
   group_created (fold (\<lambda>th. link th (Mark_done th)) ths self) = group_created self \<and>
   group_exited (fold (\<lambda>th. link th (Mark_done th)) ths self) = group_exited self"
proof (induction ths arbitrary: self)
  case Nil
  then show ?case by simp
next
  case (Cons a ths)
  then show ?case by (auto simp: link_def)
qed

lemma stop_enters_loop:
  "\<exists>s. stop sched graceful self = stop_wait sched 0 s \<and>
       (\<forall>th. group_links s th =
              group_links self th @ (if th < group_created self then [Mark_done th] else [])) \<and>
       threads s = threads self \<and>
       links_done s = map (\<lambda>th. (th, False)) [0..<group_created self] \<and>
       group_created s = group_created self \<and>
       set (group_exited s) = set (group_exited self) \<union> {th. th < group_created self}"
  unfolding stop_def Let_def
  by (rule exI, rule conjI, rule refl)
     (auto simp: fold_link_marks group_stop_def group_wait_def group_threads_def)




text \<open>
  While callbacks are queued and the scheduler calls none, the loop goes on: \<open>stop\<close>
  never returns.
\<close>

lemma stop_wait_idle:
  assumes "stop_wait sched n self = Some self'"
  shows "(\<forall>m. sched m = []) \<longrightarrow> list_all snd (links_done self)"
proof (rule stop_wait.raw_induct
    [where P = "\<lambda>sched n s s'. (\<forall>m. sched m = []) \<longrightarrow> list_all snd (links_done s)",
     OF _ assms])
  fix f :: "(nat \<Rightarrow> handle list) \<Rightarrow> nat \<Rightarrow> ThreadGroupManager \<Rightarrow> ThreadGroupManager option"
  fix sc m s z
  assume IH: "\<And>sc m s z. f sc m s = Some z \<Longrightarrow>
                (\<forall>m. sc m = []) \<longrightarrow> list_all snd (links_done s)"
    and body: "(if \<not> list_all snd (links_done s)
                then f sc (Suc m) (run_links (sc m) s)
                else Some s) = Some z"
  show "(\<forall>m. sc m = []) \<longrightarrow> list_all snd (links_done s)"
  proof
    assume idle: "\<forall>m. sc m = []"
    show "list_all snd (links_done s)"
    proof (rule ccontr)
      assume unset: "\<not> list_all snd (links_done s)"
      with body have "f sc (Suc m) (run_links (sc m) s) = Some z" by simp
      from IH [OF this] idle have "list_all snd (links_done (run_links (sc m) s))" by blast
      with idle unset show False by (simp add: run_links_def)
    qed
  qed
qed

lemma stop_never_returns_when_idle:
  assumes "\<forall>m. sched m = []" and "0 < group_created self"
  shows "stop sched graceful self = None"
proof (cases "stop sched graceful self")
  case (Some self')
  from stop_enters_loop [of sched graceful self] obtain s where
    loop: "stop sched graceful self = stop_wait sched 0 s" and
    marks: "links_done s = map (\<lambda>th. (th, False)) [0..<group_created self]"
    by blast
  from Some loop have "stop_wait sched 0 s = Some self'" by simp
  from stop_wait_idle [OF this] assms(1) have "list_all snd (links_done s)" by blast
  with marks assms(2) have False by (auto simp: list_all_iff)
  then show ?thesis ..
qed simp





subsection \<open>add_timer\<close>

text \<open>
  Claim C9 says that the period of the timer is the \<open>interval\<close> argument.  With
  \<open>cfg.CONF.periodic_interval = 60\<close>, a call with \<open>interval = 5\<close> registers a timer with
  period 60.
\<close>

theorem add_timer_interval_counterexample:
  "fst (last (group_timers (add_timer 60 (init 60) 5 ''purge''))) \<noteq> 5"
  by (simp add: add_timer_def init_def)

text \<open>
  Claim C9, amended.  \<open>add_timer\<close> registers one more timer, for the given function,
  whose period is \<open>cfg.CONF.periodic_interval\<close>, whatever the \<open>interval\<close> argument is.
\<close>

theorem add_timer_uses_periodic_interval:
  "group_timers (add_timer periodic_interval self interval func) =
     group_timers self @ [(periodic_interval, func)]"
  by (simp add: add_timer_def)

end
